theory Spec2Isabelle
  imports Main
begin

section \<open>Coordinate mapper\<close>

text \<open>
  \<open>CheckersWrapper.grid_to_checkers\<close> and \<open>CheckersWrapper.checkers_to_grid\<close> of
  \<open>game/consumers.py\<close>. Python integers are unbounded, so rows, columns and notation
  positions are \<open>int\<close>; Python's \<open>//\<close> and \<open>%\<close> round towards minus infinity, as
  \<open>div\<close> and \<open>mod\<close> on \<open>int\<close> do.
\<close>

definition grid_to_checkers :: "int \<Rightarrow> int \<Rightarrow> int \<Rightarrow> int" where
  "grid_to_checkers row col player =
     (let res = (row * 4) + 1;
          col' = (if row mod 2 = 0 then col - 1 else col);
          pos = res + col' div 2
      in if player = 1 then \<bar>pos - 33\<bar> else pos)"

definition checkers_to_grid :: "int \<Rightarrow> int \<Rightarrow> int \<times> int" where
  "checkers_to_grid num player =
     (let num' = (if player = 1 then \<bar>num - 33\<bar> else num);
          row = (num' - 1) div 4;
          col = (num' - ((row * 4) + 1)) * 2;
          col' = (if row mod 2 = 0 then col + 1 else col)
      in (row, col'))"

section \<open>Python lists and board snapshots\<close>

text \<open>
  A board snapshot is a list of rows of truth values. Reading or writing a Python list
  at an index \<open>i\<close> with \<open>-len \<le> i < 0\<close> counts from the end; any index outside
  \<open>-len \<le> i < len\<close> raises \<open>IndexError\<close>.
\<close>

datatype py_error = IndexError

type_synonym board = "bool list list"
type_synonym square = "int \<times> int"

definition py_getitem :: "'a list \<Rightarrow> int \<Rightarrow> py_error + 'a" where
  "py_getitem xs i =
     (if 0 \<le> i \<and> i < int (length xs) then Inr (xs ! nat i)
      else if - int (length xs) \<le> i \<and> i < 0 then Inr (xs ! nat (int (length xs) + i))
      else Inl IndexError)"

definition py_setitem :: "'a list \<Rightarrow> int \<Rightarrow> 'a \<Rightarrow> py_error + 'a list" where
  "py_setitem xs i v =
     (if 0 \<le> i \<and> i < int (length xs) then Inr (xs[nat i := v])
      else if - int (length xs) \<le> i \<and> i < 0 then Inr (xs[nat (int (length xs) + i) := v])
      else Inl IndexError)"

definition py_range :: "nat \<Rightarrow> int list" where
  "py_range n = map int [0..<n]"

text \<open>\<open>board[row][col]\<close>\<close>

definition board_get :: "board \<Rightarrow> int \<Rightarrow> int \<Rightarrow> py_error + bool" where
  "board_get b row col =
     (case py_getitem b row of Inl e \<Rightarrow> Inl e | Inr line \<Rightarrow> py_getitem line col)"

text \<open>\<open>board[row][col] = v\<close>, on a board whose rows are distinct list objects\<close>

definition board_set :: "board \<Rightarrow> int \<Rightarrow> int \<Rightarrow> bool \<Rightarrow> py_error + board" where
  "board_set b row col v =
     (case py_getitem b row of
        Inl e \<Rightarrow> Inl e
      | Inr line \<Rightarrow>
          (case py_setitem line col v of
             Inl e \<Rightarrow> Inl e
           | Inr line' \<Rightarrow> py_setitem b row line'))"

section \<open>The rule engine, as seen by the wrapper\<close>

text \<open>
  \<open>checkers.game.Game\<close> is an external library. The wrapper reads four attributes of each
  entry of \<open>game.board.pieces\<close> and calls a handful of methods; the engine is therefore a
  parameter of the model: a state type \<open>'g\<close> and a record of the operations used.
  \<open>game.move\<close> either returns or raises, and in both cases leaves some engine state.
\<close>

record piece =
  pc_player :: int
  pc_other_player :: int
  pc_position :: int
  pc_captured :: bool

datatype 'g move_result = Returned 'g | Raised 'g

record 'g engine =
  game_new :: 'g
  game_pieces :: "'g \<Rightarrow> piece list"
  game_whose_turn :: "'g \<Rightarrow> int"
  game_get_possible_moves :: "'g \<Rightarrow> int list list"
  game_move :: "'g \<Rightarrow> int list \<Rightarrow> 'g move_result"
  game_is_over :: "'g \<Rightarrow> bool"
  game_get_winner :: "'g \<Rightarrow> int option"

section \<open>CheckersWrapper\<close>

record 'g checkers_wrapper =
  game :: 'g
  instance_count :: int

definition init_wrapper :: "'g engine \<Rightarrow> 'g checkers_wrapper" where
  "init_wrapper eng = \<lparr>game = game_new eng, instance_count = 0\<rparr>"

definition whose_turn :: "'g engine \<Rightarrow> 'g \<Rightarrow> int" where
  "whose_turn eng g = game_whose_turn eng g"

definition moves :: "'g engine \<Rightarrow> 'g \<Rightarrow> int list list" where
  "moves eng g = game_get_possible_moves eng g"

text \<open>\<open>make_move\<close>: the bare \<open>except\<close> turns every exception of the engine into \<open>False\<close>.\<close>

definition make_move :: "'g engine \<Rightarrow> 'g \<Rightarrow> int list \<Rightarrow> bool \<times> 'g" where
  "make_move eng g mv =
     (case game_move eng g mv of
        Raised g' \<Rightarrow> (False, g')
      | Returned g' \<Rightarrow> (True, g'))"

definition is_over :: "'g engine \<Rightarrow> 'g \<Rightarrow> int option" where
  "is_over eng g = (if game_is_over eng g then game_get_winner eng g else Some 0)"

subsection \<open>Move inference\<close>

text \<open>
  The nested function \<open>boards_same\<close>: the inner loop over \<open>range(len(prev_board[0]))\<close>
  and the outer loop over \<open>range(len(prev_board))\<close>, with the pair
  \<open>(start_pos, end_pos)\<close> threaded through.
\<close>

fun scan_cols ::
  "board \<Rightarrow> board \<Rightarrow> int \<Rightarrow> int list \<Rightarrow> square option \<times> square option
     \<Rightarrow> py_error + (square option \<times> square option)" where
  "scan_cols prev_board curr_board r [] acc = Inr acc"
| "scan_cols prev_board curr_board r (c # cs) (start_pos, end_pos) =
     (case board_get prev_board r c of
        Inl e \<Rightarrow> Inl e
      | Inr p \<Rightarrow>
          (case board_get curr_board r c of
             Inl e \<Rightarrow> Inl e
           | Inr q \<Rightarrow>
               if p \<and> \<not> q then scan_cols prev_board curr_board r cs (Some (r, c), end_pos)
               else if \<not> p \<and> q then scan_cols prev_board curr_board r cs (start_pos, Some (r, c))
               else scan_cols prev_board curr_board r cs (start_pos, end_pos)))"

fun scan_rows ::
  "board \<Rightarrow> board \<Rightarrow> int list \<Rightarrow> square option \<times> square option
     \<Rightarrow> py_error + (square option \<times> square option)" where
  "scan_rows prev_board curr_board [] acc = Inr acc"
| "scan_rows prev_board curr_board (r # rs) acc =
     (case py_getitem prev_board 0 of
        Inl e \<Rightarrow> Inl e
      | Inr line0 \<Rightarrow>
          (case scan_cols prev_board curr_board r (py_range (length line0)) acc of
             Inl e \<Rightarrow> Inl e
           | Inr acc' \<Rightarrow> scan_rows prev_board curr_board rs acc'))"

definition boards_same :: "board \<Rightarrow> board \<Rightarrow> py_error + (square option \<times> square option)" where
  "boards_same prev_board curr_board =
     scan_rows prev_board curr_board (py_range (length prev_board)) (None, None)"

text \<open>
  \<open>make_move_from_board\<close> returns the truth value, the list \<open>error_location\<close> as the
  call leaves it, and the engine state. An \<open>IndexError\<close> can only come from the scan,
  before the engine is touched. The method first reads \<open>self.whose_turn()\<close> into
  \<open>curr_player\<close>, which is never used afterwards. The cells of a snapshot are truth
  values, so Python's truthiness test is the value itself.
\<close>

definition make_move_from_board ::
  "'g engine \<Rightarrow> 'g \<Rightarrow> board \<Rightarrow> board \<Rightarrow> int \<Rightarrow> square list
     \<Rightarrow> py_error + (bool \<times> square list \<times> 'g)" where
  "make_move_from_board eng g prev_board curr_board player error_location =
     (case boards_same prev_board curr_board of
        Inl e \<Rightarrow> Inl e
      | Inr (start_pos, end_pos) \<Rightarrow>
          (case (start_pos, end_pos) of
             (Some s, Some e) \<Rightarrow>
               (case make_move eng g [grid_to_checkers (fst s) (snd s) player,
                                      grid_to_checkers (fst e) (snd e) player] of
                  (True, g') \<Rightarrow> Inr (True, error_location, g')
                | (False, g') \<Rightarrow> Inr (False, error_location @ [e], g'))
           | _ \<Rightarrow> Inr (False, error_location, g)))"

subsection \<open>Board reconciliation\<close>

fun mark_pieces :: "piece list \<Rightarrow> int \<Rightarrow> board \<Rightarrow> py_error + board" where
  "mark_pieces [] player opponent_board = Inr opponent_board"
| "mark_pieces (pc # pcs) player opponent_board =
     (if pc_other_player pc = player \<and> \<not> pc_captured pc then
        (case checkers_to_grid (pc_position pc) player of
           (row, col) \<Rightarrow>
             (case board_set opponent_board row col True of
                Inl e \<Rightarrow> Inl e
              | Inr b' \<Rightarrow> mark_pieces pcs player b'))
      else mark_pieces pcs player opponent_board)"

definition add_opponent_pieces :: "'g engine \<Rightarrow> 'g \<Rightarrow> int \<Rightarrow> py_error + board" where
  "add_opponent_pieces eng g player =
     mark_pieces (game_pieces eng g) player (replicate 8 (replicate 8 False))"

text \<open>
  \<open>validate_player_board\<close>: the first loop runs over the pieces and fills
  \<open>invalid_positions\<close> and \<open>seen\<close>; the second runs over the 64 squares, and reads
  \<open>board[r][c]\<close> only where \<open>(r, c)\<close> is not in \<open>seen\<close>.
\<close>

fun check_pieces ::
  "piece list \<Rightarrow> board \<Rightarrow> int \<Rightarrow> square list \<times> square set
     \<Rightarrow> py_error + (square list \<times> square set)" where
  "check_pieces [] board player acc = Inr acc"
| "check_pieces (pc # pcs) board player (invalid_positions, seen) =
     (if pc_player pc = player \<and> \<not> pc_captured pc then
        (case checkers_to_grid (pc_position pc) player of
           (row, col) \<Rightarrow>
             (case board_get board row col of
                Inl e \<Rightarrow> Inl e
              | Inr occupied \<Rightarrow>
                  if \<not> occupied
                  then check_pieces pcs board player
                         (invalid_positions @ [(row, col)], insert (row, col) seen)
                  else check_pieces pcs board player
                         (invalid_positions, insert (row, col) seen)))
      else check_pieces pcs board player (invalid_positions, seen))"

fun check_squares :: "square list \<Rightarrow> board \<Rightarrow> square set \<Rightarrow> square list \<Rightarrow> py_error + square list" where
  "check_squares [] board seen invalid_positions = Inr invalid_positions"
| "check_squares ((r, c) # sqs) board seen invalid_positions =
     (if (r, c) \<notin> seen then
        (case board_get board r c of
           Inl e \<Rightarrow> Inl e
         | Inr occupied \<Rightarrow>
             if occupied then check_squares sqs board seen (invalid_positions @ [(r, c)])
             else check_squares sqs board seen invalid_positions)
      else check_squares sqs board seen invalid_positions)"

text \<open>The squares in the order of \<open>for r in range(8): for c in range(8)\<close>.\<close>

definition squares :: "square list" where
  "squares = concat (map (\<lambda>r. map (\<lambda>c. (r, c)) (py_range 8)) (py_range 8))"

definition validate_player_board :: "'g engine \<Rightarrow> 'g \<Rightarrow> board \<Rightarrow> int \<Rightarrow> py_error + square list" where
  "validate_player_board eng g board player =
     (case check_pieces (game_pieces eng g) board player ([], {}) of
        Inl e \<Rightarrow> Inl e
      | Inr (invalid_positions, seen) \<Rightarrow> check_squares squares board seen invalid_positions)"

section \<open>The session registry and the consumer\<close>

text \<open>
  \<open>CheckersWrapper.instances\<close> is a class-level dictionary from room group names to
  wrapper objects, and every consumer keeps a reference to its wrapper in \<open>self.game\<close>.
  Object identity matters here, so wrapper objects live in a store: a reference is an
  index into \<open>objects\<close>, and \<open>cls()\<close> allocates at the end. References are only ever
  produced by allocation and the store never shrinks, so a reference held by a consumer
  is below \<open>length (objects w)\<close>.
\<close>

record 'g world =
  instances :: "string \<rightharpoonup> nat"
  objects :: "'g checkers_wrapper list"

definition get_instance :: "'g engine \<Rightarrow> string \<Rightarrow> 'g world \<Rightarrow> nat \<times> 'g world" where
  "get_instance eng room_group_name w =
     (case instances w room_group_name of
        None \<Rightarrow>
          (let ref = length (objects w)
           in (ref, w\<lparr>instances := (instances w)(room_group_name \<mapsto> ref),
                      objects := objects w @ [init_wrapper eng]\<rparr>))
      | Some ref \<Rightarrow> (ref, w))"

definition remove_instance :: "string \<Rightarrow> 'g world \<Rightarrow> 'g world" where
  "remove_instance room_group_name w =
     (if room_group_name \<in> dom (instances w)
      then w\<lparr>instances := (instances w)(room_group_name := None)\<rparr>
      else w)"

record chat_consumer =
  room_group_name :: string
  game_ref :: nat
  player_num :: int

definition connect :: "'g engine \<Rightarrow> string \<Rightarrow> 'g world \<Rightarrow> chat_consumer \<times> 'g world" where
  "connect eng room_name w =
     (let name = ''chat_'' @ room_name;
          (ref, w1) = get_instance eng name w;
          obj = objects w1 ! ref;
          n = instance_count obj + 1;
          w2 = w1\<lparr>objects := (objects w1)[ref := obj\<lparr>instance_count := n\<rparr>]\<rparr>
      in (\<lparr>room_group_name = name, game_ref = ref,
           player_num = (if n = 1 \<or> n = 2 then n else - 1)\<rparr>, w2))"

definition disconnect :: "chat_consumer \<Rightarrow> 'g world \<Rightarrow> 'g world" where
  "disconnect self w =
     (let obj = objects w ! game_ref self;
          n = instance_count obj - 1;
          w1 = w\<lparr>objects := (objects w)[game_ref self := obj\<lparr>instance_count := n\<rparr>]\<rparr>
      in if n \<le> 0 then remove_instance (room_group_name self) w1 else w1)"

text \<open>
  \<open>receive\<close> dispatches on the command name. The commands are a datatype with their
  arguments; the entries of the result list are tagged by their JSON shape. The command
  \<open>random_player_move\<close> draws from \<open>random.random()\<close> and is not part of this model.
\<close>

datatype command =
    Add_opponent_pieces
  | Validate_player_board board
  | Whose_turn
  | Make_move_from_board board board
  | Is_over
  | Player_num
  | Make_move "int list"
  | Moves
  | Echo string

datatype json =
    Board board
  | Squares "square list"
  | Number int
  | Truth bool
  | Move_list "int list list"
  | Text string
  | Null

definition set_game :: "nat \<Rightarrow> 'g \<Rightarrow> 'g world \<Rightarrow> 'g world" where
  "set_game ref g w = w\<lparr>objects := (objects w)[ref := (objects w ! ref)\<lparr>game := g\<rparr>]\<rparr>"

fun receive ::
  "'g engine \<Rightarrow> chat_consumer \<Rightarrow> command \<Rightarrow> 'g world \<Rightarrow> py_error + (json list \<times> 'g world)" where
  "receive eng self Add_opponent_pieces w =
     (case add_opponent_pieces eng (game (objects w ! game_ref self)) (player_num self) of
        Inl e \<Rightarrow> Inl e
      | Inr b \<Rightarrow> Inr ([Board b], w))"
| "receive eng self (Validate_player_board b) w =
     (case validate_player_board eng (game (objects w ! game_ref self)) b (player_num self) of
        Inl e \<Rightarrow> Inl e
      | Inr sqs \<Rightarrow> Inr ([Squares sqs], w))"
| "receive eng self Whose_turn w =
     Inr ([Number (whose_turn eng (game (objects w ! game_ref self)))], w)"
| "receive eng self (Make_move_from_board prev_board curr_board) w =
     (case make_move_from_board eng (game (objects w ! game_ref self))
             prev_board curr_board (player_num self) [] of
        Inl e \<Rightarrow> Inl e
      | Inr (res, error_location, g') \<Rightarrow>
          Inr ([Truth res, Squares error_location], set_game (game_ref self) g' w))"
| "receive eng self Is_over w =
     Inr ([case is_over eng (game (objects w ! game_ref self)) of
             None \<Rightarrow> Null | Some n \<Rightarrow> Number n], w)"
| "receive eng self Player_num w = Inr ([Number (player_num self)], w)"
| "receive eng self (Make_move mv) w =
     (case make_move eng (game (objects w ! game_ref self)) mv of
        (res, g') \<Rightarrow> Inr ([Truth res], set_game (game_ref self) g' w))"
| "receive eng self Moves w =
     Inr ([Move_list (moves eng (game (objects w ! game_ref self)))], w)"
| "receive eng self (Echo s) w = Inr ([Text (''echoing: '' @ s)], w)"

section \<open>A reference engine for concrete evaluation\<close>

text \<open>
  Every general statement below holds for an arbitrary engine. To evaluate the model at
  concrete inputs an engine instance is needed; this one has the standard opening
  position (player 1 on the notation positions 1 to 12, player 2 on 21 to 32, player 1
  to move) and accepts exactly the non-capturing single steps of the side to move onto
  a free square, leaving its state untouched when it raises. That is enough for the
  opening moves \<open>[9, 13]\<close>, \<open>[9, 14]\<close>, ... of a game of checkers.
\<close>

record ref_game =
  rg_pieces :: "piece list"
  rg_turn :: int

definition ref_new :: ref_game where
  "ref_new =
     \<lparr>rg_pieces =
        map (\<lambda>n. \<lparr>pc_player = 1, pc_other_player = 2, pc_position = n, pc_captured = False\<rparr>)
            [1, 2, 3, 4, 5, 6, 7, 8, 9, 10, 11, 12]
        @ map (\<lambda>n. \<lparr>pc_player = 2, pc_other_player = 1, pc_position = n, pc_captured = False\<rparr>)
            [21, 22, 23, 24, 25, 26, 27, 28, 29, 30, 31, 32],
      rg_turn = 1\<rparr>"

definition ref_step_ok :: "ref_game \<Rightarrow> int \<Rightarrow> int \<Rightarrow> bool" where
  "ref_step_ok g a b =
     (list_ex (\<lambda>pc. pc_player pc = rg_turn g \<and> \<not> pc_captured pc \<and> pc_position pc = a)
        (rg_pieces g)
      \<and> list_all (\<lambda>pc. pc_captured pc \<or> pc_position pc \<noteq> b) (rg_pieces g)
      \<and> 1 \<le> b \<and> b \<le> 32
      \<and> (case (checkers_to_grid a 2, checkers_to_grid b 2) of
           ((ra, ca), (rb, cb)) \<Rightarrow>
             rb = ra + (if rg_turn g = 1 then 1 else - 1) \<and> \<bar>cb - ca\<bar> = 1))"

definition ref_move :: "ref_game \<Rightarrow> int list \<Rightarrow> ref_game move_result" where
  "ref_move g mv =
     (case mv of
        [a, b] \<Rightarrow>
          if ref_step_ok g a b
          then Returned
                 \<lparr>rg_pieces =
                    map (\<lambda>pc. if \<not> pc_captured pc \<and> pc_position pc = a
                              then pc\<lparr>pc_position := b\<rparr> else pc) (rg_pieces g),
                  rg_turn = 3 - rg_turn g\<rparr>
          else Raised g
      | _ \<Rightarrow> Raised g)"

definition ref_engine :: "ref_game engine" where
  "ref_engine =
     \<lparr>game_new = ref_new,
      game_pieces = rg_pieces,
      game_whose_turn = rg_turn,
      game_get_possible_moves =
        (\<lambda>g. filter (\<lambda>mv. ref_step_ok g (mv ! 0) (mv ! 1))
               (concat (map (\<lambda>a. map (\<lambda>b. [a, b]) (map int [1..<33])) (map int [1..<33])))),
      game_move = ref_move,
      game_is_over = (\<lambda>g. False),
      game_get_winner = (\<lambda>g. None)\<rparr>"

section \<open>Notions used to state the properties\<close>

text \<open>
  These definitions are not taken from the source; they say what the properties below
  talk about. A well-formed snapshot has eight rows of eight cells.
\<close>

definition is_board :: "board \<Rightarrow> bool" where
  "is_board b = (length b = 8 \<and> list_all (\<lambda>line. length line = 8) b)"

definition cell :: "board \<Rightarrow> square \<Rightarrow> bool" where
  "cell b sq = b ! nat (fst sq) ! nat (snd sq)"

text \<open>The snapshot whose occupied squares are the given ones.\<close>

definition board_with :: "square list \<Rightarrow> board" where
  "board_with sqs = map (\<lambda>r. map (\<lambda>c. (r, c) \<in> set sqs) (py_range 8)) (py_range 8)"

text \<open>The last element of a list, if there is one.\<close>

definition last_seen :: "'a list \<Rightarrow> 'a option" where
  "last_seen xs = (if xs = [] then None else Some (last xs))"

text \<open>The value a variable holds after being assigned each element of a list in turn.\<close>

definition latest :: "'a option \<Rightarrow> 'a list \<Rightarrow> 'a option" where
  "latest start xs = (case last_seen xs of None \<Rightarrow> start | Some x \<Rightarrow> Some x)"

text \<open>The vacated and the newly occupied squares of two snapshots, in row-major order.\<close>

definition vacated :: "board \<Rightarrow> board \<Rightarrow> square list" where
  "vacated prev_board curr_board =
     filter (\<lambda>sq. cell prev_board sq \<and> \<not> cell curr_board sq) squares"

definition newly_occupied :: "board \<Rightarrow> board \<Rightarrow> square list" where
  "newly_occupied prev_board curr_board =
     filter (\<lambda>sq. \<not> cell prev_board sq \<and> cell curr_board sq) squares"

text \<open>The occupied squares of a snapshot.\<close>

definition occupied :: "board \<Rightarrow> square set" where
  "occupied b = {sq \<in> set squares. cell b sq}"

text \<open>The non-captured pieces of a player, and the grid squares they stand on in that
  player's frame.\<close>

definition live_pieces :: "'g engine \<Rightarrow> 'g \<Rightarrow> int \<Rightarrow> piece list" where
  "live_pieces eng g player =
     filter (\<lambda>pc. pc_player pc = player \<and> \<not> pc_captured pc) (game_pieces eng g)"

definition expected_squares :: "'g engine \<Rightarrow> 'g \<Rightarrow> int \<Rightarrow> square set" where
  "expected_squares eng g player =
     (\<lambda>pc. checkers_to_grid (pc_position pc) player) ` set (live_pieces eng g player)"

text \<open>Every non-captured piece stands on one of the notation positions 1 to 32, and the
  two player tags of a piece are 1 and 2 in some order.\<close>

definition pieces_ok :: "'g engine \<Rightarrow> 'g \<Rightarrow> bool" where
  "pieces_ok eng g =
     list_all (\<lambda>pc. (pc_captured pc \<or> (1 \<le> pc_position pc \<and> pc_position pc \<le> 32))
                   \<and> (pc_player pc = 1 \<or> pc_player pc = 2)
                   \<and> pc_other_player pc = 3 - pc_player pc)
       (game_pieces eng g)"

definition opponent_of :: "int \<Rightarrow> int" where
  "opponent_of player = 3 - player"

text \<open>A snapshot turned by 180 degrees.\<close>

definition rotate180 :: "board \<Rightarrow> board" where
  "rotate180 b = rev (map rev b)"

text \<open>The player slot handed out when the party count after the join is \<open>n\<close>.\<close>

definition slot_for :: "int \<Rightarrow> int" where
  "slot_for n = (if n = 1 \<or> n = 2 then n else - 1)"

text \<open>The commands whose branch of \<open>receive\<close> calls no engine operation that moves.\<close>

fun is_query :: "command \<Rightarrow> bool" where
  "is_query (Make_move_from_board prev_board curr_board) = False"
| "is_query (Make_move mv) = False"
| "is_query cmd = True"

text \<open>The world before anyone has connected.\<close>

definition no_sessions :: "'g world" where
  "no_sessions = \<lparr>instances = Map.empty, objects = []\<rparr>"

text \<open>\<open>n\<close> parties joining one room in a row, with no leave in between.\<close>

fun join_all :: "'g engine \<Rightarrow> string \<Rightarrow> nat \<Rightarrow> 'g world \<Rightarrow> chat_consumer list \<times> 'g world" where
  "join_all eng room_name 0 w = ([], w)"
| "join_all eng room_name (Suc n) w =
     (case connect eng room_name w of
        (c, w') \<Rightarrow> (case join_all eng room_name n w' of (cs, w'') \<Rightarrow> (c # cs, w'')))"

section \<open>Round trip of the coordinate mapper\<close>

lemma grid_to_checkers_range:
  assumes "0 \<le> row" "row \<le> 7" "0 \<le> col" "col \<le> 7" "odd (row + col)"
  shows "1 \<le> grid_to_checkers row col 2 \<and> grid_to_checkers row col 2 \<le> 32"
proof -
  have "row \<in> {0, 1, 2, 3, 4, 5, 6, 7}" using assms(1,2) by auto
  moreover have "col \<in> {0, 1, 2, 3, 4, 5, 6, 7}" using assms(3,4) by auto
  ultimately show ?thesis
    using assms(5) by (auto simp: grid_to_checkers_def)
qed

lemma checkers_to_grid_at_grid:
  assumes "0 \<le> row" "row \<le> 7" "0 \<le> col" "col \<le> 7" "odd (row + col)"
  shows "checkers_to_grid (grid_to_checkers row col 2) 2 = (row, col)"
proof -
  have "row \<in> {0, 1, 2, 3, 4, 5, 6, 7}" using assms(1,2) by auto
  moreover have "col \<in> {0, 1, 2, 3, 4, 5, 6, 7}" using assms(3,4) by auto
  ultimately show ?thesis
    using assms(5) by (auto simp: grid_to_checkers_def checkers_to_grid_def)
qed

lemma checkers_to_grid_mirrored:
  "1 \<le> n \<Longrightarrow> n \<le> 32 \<Longrightarrow> checkers_to_grid \<bar>n - 33\<bar> 1 = checkers_to_grid n 2"
  by (simp add: checkers_to_grid_def)

lemma grid_to_checkers_player1:
  "grid_to_checkers row col 1 = \<bar>grid_to_checkers row col 2 - 33\<bar>"
  by (simp add: grid_to_checkers_def Let_def)

text \<open>
  Claim C1. For every dark square \<open>(row, col)\<close> of the 8x8 grid (\<open>row + col\<close> odd) and
  every player in \<open>{1, 2}\<close>, mapping the square to its notation position and back with
  the same player gives the square again.
\<close>

theorem grid_round_trip:
  assumes "0 \<le> row" "row \<le> 7" "0 \<le> col" "col \<le> 7" "odd (row + col)"
    and "player = 1 \<or> player = 2"
  shows "checkers_to_grid (grid_to_checkers row col player) player = (row, col)"
  using assms(6)
proof
  assume "player = 2"
  then show ?thesis using checkers_to_grid_at_grid assms by simp
next
  assume p: "player = 1"
  have "checkers_to_grid (grid_to_checkers row col 1) 1
          = checkers_to_grid (grid_to_checkers row col 2) 2"
    unfolding grid_to_checkers_player1
    using grid_to_checkers_range[OF assms(1-5)] by (intro checkers_to_grid_mirrored) auto
  then show ?thesis using p checkers_to_grid_at_grid assms by simp
qed

theorem grid_round_trip_witness:
  "(0::int) \<le> 2 \<and> (2::int) \<le> 7 \<and> (0::int) \<le> 1 \<and> (1::int) \<le> 7 \<and> odd ((2::int) + 1)
     \<and> ((1::int) = 1 \<or> (1::int) = 2)
     \<and> grid_to_checkers 2 1 1 = 24
     \<and> checkers_to_grid (grid_to_checkers 2 1 1) 1 = (2, 1)"
  using grid_round_trip[of 2 1 1] by (simp add: grid_to_checkers_def)


section \<open>Move inference from two snapshots\<close>

lemma latest_Nil [simp]: "latest a [] = a"
  by (simp add: latest_def last_seen_def)

lemma latest_Cons: "latest a (x # xs) = latest (Some x) xs"
  by (simp add: latest_def last_seen_def)

lemma latest_append: "latest (latest a xs) ys = latest a (xs @ ys)"
  by (simp add: latest_def last_seen_def)

lemma latest_None: "latest None xs = last_seen xs"
  by (simp add: latest_def last_seen_def)

lemma board_get_cell:
  assumes "is_board b" "0 \<le> r" "r < 8" "0 \<le> c" "c < 8"
  shows "board_get b r c = Inr (cell b (r, c))"
proof -
  from assms have len: "length b = 8" by (simp add: is_board_def)
  from assms have "nat r < length b" using len by simp
  then have "b ! nat r \<in> set b" by simp
  with assms(1) have "length (b ! nat r) = 8" by (simp add: is_board_def list_all_iff)
  with len assms show ?thesis
    by (simp add: board_get_def py_getitem_def cell_def)
qed

lemma scan_cols_latest:
  assumes "is_board pb" "is_board cb" "0 \<le> r" "r < 8" "\<forall>c \<in> set cs. 0 \<le> c \<and> c < 8"
  shows "scan_cols pb cb r cs (s, e) =
           Inr (latest s (filter (\<lambda>sq. cell pb sq \<and> \<not> cell cb sq) (map (Pair r) cs)),
                latest e (filter (\<lambda>sq. \<not> cell pb sq \<and> cell cb sq) (map (Pair r) cs)))"
  using assms(5)
proof (induction cs arbitrary: s e)
  case Nil
  then show ?case by simp
next
  case (Cons c cs)
  then have c: "0 \<le> c" "c < 8" and rest: "\<forall>c \<in> set cs. 0 \<le> c \<and> c < 8" by auto
  note get = board_get_cell[OF assms(1) assms(3,4) c] board_get_cell[OF assms(2) assms(3,4) c]
  show ?case
    by (simp add: get Cons.IH[OF rest] latest_Cons)
qed

lemma py_range_bounds: "c \<in> set (py_range n) \<Longrightarrow> 0 \<le> c \<and> c < int n"
  by (auto simp: py_range_def)

lemma scan_rows_latest:
  assumes "is_board pb" "is_board cb" "\<forall>r \<in> set rs. 0 \<le> r \<and> r < 8"
  shows "scan_rows pb cb rs (s, e) =
           Inr (latest s (filter (\<lambda>sq. cell pb sq \<and> \<not> cell cb sq)
                            (concat (map (\<lambda>r. map (Pair r) (py_range 8)) rs))),
                latest e (filter (\<lambda>sq. \<not> cell pb sq \<and> cell cb sq)
                            (concat (map (\<lambda>r. map (Pair r) (py_range 8)) rs))))"
  using assms(3)
proof (induction rs arbitrary: s e)
  case Nil
  then show ?case by simp
next
  case (Cons r rs)
  then have r: "0 \<le> r" "r < 8" and rest: "\<forall>r \<in> set rs. 0 \<le> r \<and> r < 8" by auto
  from assms(1) have len: "length pb = 8" "length (pb ! 0) = 8"
    by (auto simp: is_board_def list_all_iff)
  then have line0: "py_getitem pb 0 = Inr (pb ! 0)"
    by (simp add: py_getitem_def)
  have cols: "\<forall>c \<in> set (py_range 8). 0 \<le> c \<and> c < 8"
    using py_range_bounds by fastforce
  show ?case
    by (simp add: line0 len scan_cols_latest[OF assms(1,2) r cols] Cons.IH[OF rest] latest_append)
qed

lemma boards_same_last_seen:
  assumes "is_board pb" "is_board cb"
  shows "boards_same pb cb = Inr (last_seen (vacated pb cb), last_seen (newly_occupied pb cb))"
proof -
  have rows: "\<forall>r \<in> set (py_range 8). 0 \<le> r \<and> r < 8"
    using py_range_bounds by fastforce
  from assms(1) have len: "length pb = 8" by (simp add: is_board_def)
  show ?thesis
    unfolding boards_same_def len
    by (simp add: scan_rows_latest[OF assms rows] latest_None vacated_def newly_occupied_def squares_def)
qed


lemma is_board_board_with: "is_board (board_with sqs)"
  by (simp add: is_board_def board_with_def py_range_def list_all_iff)

lemma make_move_from_board_found:
  assumes "boards_same pb cb = Inr (Some s, Some e)"
  shows "make_move_from_board eng g pb cb player errs =
           (case make_move eng g [grid_to_checkers (fst s) (snd s) player,
                                  grid_to_checkers (fst e) (snd e) player] of
              (True, g') \<Rightarrow> Inr (True, errs, g')
            | (False, g') \<Rightarrow> Inr (False, errs @ [e], g'))"
  using assms by (simp add: make_move_from_board_def)

lemma make_move_from_board_not_found:
  assumes "boards_same pb cb = Inr (start_pos, end_pos)" "start_pos = None \<or> end_pos = None"
  shows "make_move_from_board eng g pb cb player errs = Inr (False, errs, g)"
  using assms by (auto simp: make_move_from_board_def split: option.splits)

lemma vacated_same: "vacated b b = []"
  by (simp add: vacated_def)

text \<open>
  Claim C3. When the scan of the two snapshots finds both a vacated square \<open>s\<close> and a
  newly occupied square \<open>e\<close>, and the engine raises on the mapped move, the call returns
  \<open>False\<close> and appends exactly \<open>e\<close> to \<open>error_location\<close>; with the empty list that
  \<open>receive\<close> passes in, the reported list is \<open>[e]\<close>. The engine state is the one the
  rejected call left.
\<close>

theorem illegal_move_reports_destination:
  assumes "boards_same prev_board curr_board = Inr (Some s, Some e)"
    and "game_move eng g [grid_to_checkers (fst s) (snd s) player,
                          grid_to_checkers (fst e) (snd e) player] = Raised g'"
  shows "make_move_from_board eng g prev_board curr_board player error_location
           = Inr (False, error_location @ [e], g')
         \<and> make_move_from_board eng g prev_board curr_board player [] = Inr (False, [e], g')"
  using assms by (simp add: make_move_from_board_found make_move_def)

theorem illegal_move_reports_destination_witness:
  "boards_same (board_with [(2, 1)]) (board_with [(3, 0)]) = Inr (Some (2, 1), Some (3, 0))
   \<and> game_move ref_engine ref_new [grid_to_checkers 2 1 1, grid_to_checkers 3 0 1]
        = Raised ref_new
   \<and> make_move_from_board ref_engine ref_new (board_with [(2, 1)]) (board_with [(3, 0)]) 1 []
        = Inr (False, [(3, 0)], ref_new)"
proof -
  have scan: "boards_same (board_with [(2, 1)]) (board_with [(3, 0)])
                = Inr (Some (2, 1), Some (3, 0))"
    by code_simp
  have rejected: "game_move ref_engine ref_new
                    [grid_to_checkers (fst (2, 1)) (snd (2, 1)) 1,
                     grid_to_checkers (fst (3, 0)) (snd (3, 0)) 1] = Raised ref_new"
    by code_simp
  from illegal_move_reports_destination[OF scan rejected, of "[]"] scan rejected
  show ?thesis by simp
qed

text \<open>
  Claim C4. For two well-formed snapshots with no vacated square or no newly occupied
  square (a piece only added, a piece only removed, or no change at all), the call
  returns \<open>False\<close>, leaves \<open>error_location\<close> as it was, and leaves the engine state as
  it was. The statement holds for every engine, also one whose \<open>move\<close> changes its
  state on every call, so the engine is not called. Two identical snapshots are one
  such pair.
\<close>

theorem no_move_inferred:
  assumes "is_board prev_board" "is_board curr_board"
    and "vacated prev_board curr_board = [] \<or> newly_occupied prev_board curr_board = []"
  shows "make_move_from_board eng g prev_board curr_board player error_location
           = Inr (False, error_location, g)
         \<and> make_move_from_board eng g prev_board prev_board player error_location
           = Inr (False, error_location, g)"
proof
  have "last_seen (vacated prev_board curr_board) = None
          \<or> last_seen (newly_occupied prev_board curr_board) = None"
    using assms(3) by (auto simp: last_seen_def)
  then show "make_move_from_board eng g prev_board curr_board player error_location
               = Inr (False, error_location, g)"
    using boards_same_last_seen[OF assms(1,2)] by (rule make_move_from_board_not_found[rotated])
next
  have "last_seen (vacated prev_board prev_board) = None
          \<or> last_seen (newly_occupied prev_board prev_board) = None"
    by (simp add: vacated_same last_seen_def)
  then show "make_move_from_board eng g prev_board prev_board player error_location
               = Inr (False, error_location, g)"
    using boards_same_last_seen[OF assms(1,1)] by (rule make_move_from_board_not_found[rotated])
qed

theorem no_move_inferred_witness:
  "is_board (board_with [(2, 1)]) \<and> is_board (board_with [(2, 1), (3, 0)])
   \<and> (vacated (board_with [(2, 1)]) (board_with [(2, 1), (3, 0)]) = []
        \<or> newly_occupied (board_with [(2, 1)]) (board_with [(2, 1), (3, 0)]) = [])
   \<and> make_move_from_board ref_engine ref_new
        (board_with [(2, 1)]) (board_with [(2, 1), (3, 0)]) (- 1) []
        = Inr (False, [], ref_new)
   \<and> make_move_from_board ref_engine ref_new
        (board_with [(2, 1)]) (board_with [(2, 1)]) (- 1) []
        = Inr (False, [], ref_new)"
proof -
  have none: "vacated (board_with [(2, 1)]) (board_with [(2, 1), (3, 0)]) = []
                \<or> newly_occupied (board_with [(2, 1)]) (board_with [(2, 1), (3, 0)]) = []"
    by code_simp
  from no_move_inferred[OF is_board_board_with is_board_board_with none,
         of ref_engine ref_new "- 1" "[]"] none
  show ?thesis by (simp add: is_board_board_with)
qed

text \<open>
  Claim C5. For two well-formed snapshots the scan never fails and returns the last
  vacated square and the last newly occupied square of the row-major order (rows 0 to
  7, within a row columns 0 to 7), however many there are of each; when there is at
  least one of each, these two squares are the start and the end of the move given to
  the engine, and the outcome is the one of that move alone.
\<close>

theorem last_seen_pair_used:
  assumes "is_board prev_board" "is_board curr_board"
  shows "boards_same prev_board curr_board
           = Inr (last_seen (vacated prev_board curr_board),
                  last_seen (newly_occupied prev_board curr_board))
         \<and> (vacated prev_board curr_board \<noteq> [] \<and> newly_occupied prev_board curr_board \<noteq> []
              \<longrightarrow> make_move_from_board eng g prev_board curr_board player error_location
                    = (let s = last (vacated prev_board curr_board);
                           e = last (newly_occupied prev_board curr_board)
                       in case make_move eng g [grid_to_checkers (fst s) (snd s) player,
                                                grid_to_checkers (fst e) (snd e) player] of
                            (True, g') \<Rightarrow> Inr (True, error_location, g')
                          | (False, g') \<Rightarrow> Inr (False, error_location @ [e], g')))"
proof (intro conjI impI)
  show scan: "boards_same prev_board curr_board
                = Inr (last_seen (vacated prev_board curr_board),
                       last_seen (newly_occupied prev_board curr_board))"
    by (rule boards_same_last_seen[OF assms])
  assume "vacated prev_board curr_board \<noteq> [] \<and> newly_occupied prev_board curr_board \<noteq> []"
  then have "boards_same prev_board curr_board
               = Inr (Some (last (vacated prev_board curr_board)),
                      Some (last (newly_occupied prev_board curr_board)))"
    using scan by (simp add: last_seen_def)
  then show "make_move_from_board eng g prev_board curr_board player error_location
               = (let s = last (vacated prev_board curr_board);
                      e = last (newly_occupied prev_board curr_board)
                  in case make_move eng g [grid_to_checkers (fst s) (snd s) player,
                                           grid_to_checkers (fst e) (snd e) player] of
                       (True, g') \<Rightarrow> Inr (True, error_location, g')
                     | (False, g') \<Rightarrow> Inr (False, error_location @ [e], g'))"
    by (simp add: make_move_from_board_found Let_def)
qed

theorem last_seen_pair_used_witness:
  "is_board (board_with [(2, 1), (2, 3)]) \<and> is_board (board_with [(3, 0), (3, 4)])
   \<and> vacated (board_with [(2, 1), (2, 3)]) (board_with [(3, 0), (3, 4)]) = [(2, 1), (2, 3)]
   \<and> newly_occupied (board_with [(2, 1), (2, 3)]) (board_with [(3, 0), (3, 4)])
        = [(3, 0), (3, 4)]
   \<and> boards_same (board_with [(2, 1), (2, 3)]) (board_with [(3, 0), (3, 4)])
        = Inr (Some (2, 3), Some (3, 4))
   \<and> make_move_from_board ref_engine ref_new
        (board_with [(2, 1), (2, 3)]) (board_with [(3, 0), (3, 4)]) 2 []
        = Inr (True, [], snd (make_move ref_engine ref_new [10, 15]))"
proof -
  have ok: "fst (make_move ref_engine ref_new [10, 15])"
    by code_simp
  have v: "vacated (board_with [(2, 1), (2, 3)]) (board_with [(3, 0), (3, 4)])
             = [(2, 1), (2, 3)]"
    by code_simp
  have n: "newly_occupied (board_with [(2, 1), (2, 3)]) (board_with [(3, 0), (3, 4)])
             = [(3, 0), (3, 4)]"
    by code_simp
  have m: "grid_to_checkers 2 3 2 = 10" "grid_to_checkers 3 4 2 = 15"
    by (simp_all add: grid_to_checkers_def)
  from last_seen_pair_used[OF is_board_board_with is_board_board_with,
         of "[(2, 1), (2, 3)]" "[(3, 0), (3, 4)]" ref_engine ref_new 2 "[]"]
    ok
  show ?thesis
    by (simp add: v n m last_seen_def is_board_board_with prod.case_eq_if bool.case_eq_if)
qed


section \<open>Board reconciliation\<close>

lemma set_py_range: "set (py_range n) = {i. 0 \<le> i \<and> i < int n}"
proof
  show "set (py_range n) \<subseteq> {i. 0 \<le> i \<and> i < int n}"
    by (auto simp: py_range_def)
  show "{i. 0 \<le> i \<and> i < int n} \<subseteq> set (py_range n)"
  proof
    fix i assume "i \<in> {i. 0 \<le> i \<and> i < int n}"
    then have "nat i < n" "int (nat i) = i" by auto
    then show "i \<in> set (py_range n)"
      unfolding py_range_def by (metis atLeast0LessThan image_eqI lessThan_iff set_map set_upt)
  qed
qed

lemma set_squares: "set squares = {(r, c). 0 \<le> r \<and> r < 8 \<and> 0 \<le> c \<and> c < 8}"
  by (auto simp: squares_def set_py_range)

lemma checkers_to_grid_in_range:
  assumes "1 \<le> n" "n \<le> 32"
  shows "checkers_to_grid n player \<in> set squares"
proof -
  have "\<bar>n - 33\<bar> = 33 - n" using assms by simp
  then show ?thesis
    using assms unfolding set_squares checkers_to_grid_def Let_def
    by auto
qed

lemma board_get_square:
  assumes "is_board b" "sq \<in> set squares"
  shows "board_get b (fst sq) (snd sq) = Inr (cell b sq)"
  using board_get_cell[OF assms(1), of "fst sq" "snd sq"] assms(2)
  by (auto simp: set_squares)

lemma check_pieces_exact:
  assumes "is_board board"
    and "\<forall>pc \<in> set pcs. pc_player pc = player \<and> \<not> pc_captured pc
            \<longrightarrow> 1 \<le> pc_position pc \<and> pc_position pc \<le> 32"
  shows "check_pieces pcs board player (bad, seen) =
           Inr (bad @ filter (\<lambda>sq. \<not> cell board sq)
                        (map (\<lambda>pc. checkers_to_grid (pc_position pc) player)
                           (filter (\<lambda>pc. pc_player pc = player \<and> \<not> pc_captured pc) pcs)),
                seen \<union> (\<lambda>pc. checkers_to_grid (pc_position pc) player)
                         ` {pc \<in> set pcs. pc_player pc = player \<and> \<not> pc_captured pc})"
  using assms(2)
proof (induction pcs arbitrary: bad seen)
  case Nil
  then show ?case by simp
next
  case (Cons pc pcs)
  then have rest: "\<forall>pc \<in> set pcs. pc_player pc = player \<and> \<not> pc_captured pc
            \<longrightarrow> 1 \<le> pc_position pc \<and> pc_position pc \<le> 32"
    by simp
  show ?case
  proof (cases "pc_player pc = player \<and> \<not> pc_captured pc")
    case False
    then show ?thesis
      using Cons.IH[OF rest] by auto
  next
    case True
    obtain row col where rc: "checkers_to_grid (pc_position pc) player = (row, col)"
      by (cases "checkers_to_grid (pc_position pc) player")
    from True Cons.prems have "checkers_to_grid (pc_position pc) player \<in> set squares"
      by (intro checkers_to_grid_in_range) auto
    then have get: "board_get board row col = Inr (cell board (row, col))"
      using board_get_square[OF assms(1), of "(row, col)"] rc by simp
    have eq: "{pc' \<in> set (pc # pcs). pc_player pc' = player \<and> \<not> pc_captured pc'}
            = insert pc {pc' \<in> set pcs. pc_player pc' = player \<and> \<not> pc_captured pc'}"
      using True by auto
    have step: "check_pieces (pc # pcs) board player (bad, seen)
                  = check_pieces pcs board player
                      (bad @ filter (\<lambda>sq. \<not> cell board sq) [(row, col)], insert (row, col) seen)"
      using True by (simp add: rc get)
    show ?thesis
      unfolding step Cons.IH[OF rest] eq using True rc by simp
  qed
qed

lemma check_squares_exact:
  assumes "is_board board" "set sqs \<subseteq> set squares"
  shows "check_squares sqs board seen bad =
           Inr (bad @ filter (\<lambda>sq. sq \<notin> seen \<and> cell board sq) sqs)"
  using assms(2)
proof (induction sqs arbitrary: bad)
  case Nil
  then show ?case by simp
next
  case (Cons sq sqs)
  obtain r c where sq: "sq = (r, c)" by (cases sq)
  from Cons.prems have "sq \<in> set squares" and rest: "set sqs \<subseteq> set squares" by auto
  then have get: "board_get board r c = Inr (cell board (r, c))"
    using board_get_square[OF assms(1), of sq] sq by simp
  show ?case
    by (simp add: sq get Cons.IH[OF rest])
qed

lemma validate_player_board_exact:
  assumes "is_board board"
    and "list_all (\<lambda>pc. 1 \<le> pc_position pc \<and> pc_position pc \<le> 32) (live_pieces eng g player)"
  shows "validate_player_board eng g board player =
           Inr (filter (\<lambda>sq. \<not> cell board sq)
                  (map (\<lambda>pc. checkers_to_grid (pc_position pc) player) (live_pieces eng g player))
                @ filter (\<lambda>sq. sq \<notin> expected_squares eng g player \<and> cell board sq) squares)"
proof -
  have range: "\<forall>pc \<in> set (game_pieces eng g). pc_player pc = player \<and> \<not> pc_captured pc
            \<longrightarrow> 1 \<le> pc_position pc \<and> pc_position pc \<le> 32"
    using assms(2) by (auto simp: live_pieces_def list_all_iff)
  show ?thesis
    unfolding validate_player_board_def
    by (simp add: check_pieces_exact[OF assms(1) range] check_squares_exact[OF assms(1)]
          live_pieces_def expected_squares_def)
qed

lemma expected_in_range:
  assumes "list_all (\<lambda>pc. 1 \<le> pc_position pc \<and> pc_position pc \<le> 32) (live_pieces eng g player)"
  shows "expected_squares eng g player \<subseteq> set squares"
  using assms by (auto simp: expected_squares_def list_all_iff intro!: checkers_to_grid_in_range)

lemma validate_player_board_sets:
  assumes "is_board board"
    and "list_all (\<lambda>pc. 1 \<le> pc_position pc \<and> pc_position pc \<le> 32) (live_pieces eng g player)"
  shows "\<exists>res. validate_player_board eng g board player = Inr res
           \<and> set res = {sq \<in> expected_squares eng g player. \<not> cell board sq}
                        \<union> {sq \<in> occupied board. sq \<notin> expected_squares eng g player}
           \<and> (res = [] \<longleftrightarrow> occupied board = expected_squares eng g player)"
proof -
  let ?E = "expected_squares eng g player"
  let ?res = "filter (\<lambda>sq. \<not> cell board sq)
                  (map (\<lambda>pc. checkers_to_grid (pc_position pc) player) (live_pieces eng g player))
                @ filter (\<lambda>sq. sq \<notin> ?E \<and> cell board sq) squares"
  have sub: "?E \<subseteq> set squares" by (rule expected_in_range[OF assms(2)])
  have s: "set ?res = {sq \<in> ?E. \<not> cell board sq} \<union> {sq \<in> occupied board. sq \<notin> ?E}"
    by (auto simp: expected_squares_def occupied_def)
  have "?res = [] \<longleftrightarrow> set ?res = {}" by (rule set_empty[symmetric])
  also have "\<dots> \<longleftrightarrow> occupied board = ?E"
    unfolding s using sub by (auto simp: occupied_def)
  finally have e: "?res = [] \<longleftrightarrow> occupied board = ?E" .
  show ?thesis
    using validate_player_board_exact[OF assms] s e by blast
qed


text \<open>
  Claim C6. For an 8x8 board and any player whose non-captured pieces stand on notation
  positions 1 to 32, \<open>validate_player_board\<close> returns a list whose elements are exactly
  the expected squares of the player that the board shows empty, together with the
  occupied squares of the board that are no expected square of the player; the list
  is empty if and only if the occupied squares are exactly the expected squares.
\<close>

theorem validate_player_board_mismatches:
  assumes "is_board board"
    and "list_all (\<lambda>pc. 1 \<le> pc_position pc \<and> pc_position pc \<le> 32) (live_pieces eng g player)"
  shows "case validate_player_board eng g board player of
           Inl err \<Rightarrow> False
         | Inr res \<Rightarrow>
             set res = {sq \<in> expected_squares eng g player. \<not> cell board sq}
                        \<union> {sq \<in> occupied board. sq \<notin> expected_squares eng g player}
             \<and> (res = [] \<longleftrightarrow> occupied board = expected_squares eng g player)"
  using validate_player_board_sets[OF assms] by auto

theorem validate_player_board_mismatches_witness:
  "is_board (board_with [(0, 1), (5, 2), (5, 4), (5, 6), (6, 1), (6, 3), (6, 5), (6, 7),
                         (7, 0), (7, 2), (7, 4), (7, 6)])
   \<and> list_all (\<lambda>pc. 1 \<le> pc_position pc \<and> pc_position pc \<le> 32)
         (live_pieces ref_engine ref_new 2)
   \<and> validate_player_board ref_engine ref_new
         (board_with [(0, 1), (5, 2), (5, 4), (5, 6), (6, 1), (6, 3), (6, 5), (6, 7),
                      (7, 0), (7, 2), (7, 4), (7, 6)]) 2 = Inr [(5, 0), (0, 1)]
   \<and> {(5, 0), (0, 1)}
        = {sq \<in> expected_squares ref_engine ref_new 2.
             \<not> cell (board_with [(0, 1), (5, 2), (5, 4), (5, 6), (6, 1), (6, 3), (6, 5), (6, 7),
                                  (7, 0), (7, 2), (7, 4), (7, 6)]) sq}
          \<union> {sq \<in> occupied (board_with [(0, 1), (5, 2), (5, 4), (5, 6), (6, 1), (6, 3), (6, 5),
                                         (6, 7), (7, 0), (7, 2), (7, 4), (7, 6)]).
               sq \<notin> expected_squares ref_engine ref_new 2}
   \<and> occupied (board_with [(0, 1), (5, 2), (5, 4), (5, 6), (6, 1), (6, 3), (6, 5), (6, 7),
                           (7, 0), (7, 2), (7, 4), (7, 6)])
        \<noteq> expected_squares ref_engine ref_new 2"
proof -
  let ?b = "board_with [(0, 1), (5, 2), (5, 4), (5, 6), (6, 1), (6, 3), (6, 5), (6, 7),
                        (7, 0), (7, 2), (7, 4), (7, 6)]"
  have live: "list_all (\<lambda>pc. 1 \<le> pc_position pc \<and> pc_position pc \<le> 32)
                (live_pieces ref_engine ref_new 2)"
    by code_simp
  have run: "validate_player_board ref_engine ref_new ?b 2 = Inr [(5, 0), (0, 1)]"
    by code_simp
  from validate_player_board_mismatches[OF is_board_board_with live, of _ ]
  have "case validate_player_board ref_engine ref_new ?b 2 of
           Inl err \<Rightarrow> False
         | Inr res \<Rightarrow>
             set res = {sq \<in> expected_squares ref_engine ref_new 2. \<not> cell ?b sq}
                        \<union> {sq \<in> occupied ?b. sq \<notin> expected_squares ref_engine ref_new 2}
             \<and> (res = [] \<longleftrightarrow> occupied ?b = expected_squares ref_engine ref_new 2)" .
  then show ?thesis
    unfolding run using live run by (simp add: is_board_board_with)
qed


lemma checkers_to_grid_canonical:
  assumes "0 \<le> k" "k < 4"
  shows "checkers_to_grid (4 * q + k + 1) 2 = (q, 2 * k + (if even q then 1 else 0))"
proof -
  have "(4 * q + k) div 4 = q" using assms by presburger
  then show ?thesis
    by (simp add: checkers_to_grid_def Let_def even_iff_mod_2_eq_zero)
qed

lemma checkers_to_grid_rotated:
  assumes "1 \<le> n" "n \<le> 32"
  shows "checkers_to_grid n 1 = (7 - fst (checkers_to_grid n 2), 7 - snd (checkers_to_grid n 2))"
proof -
  define q where "q = (n - 1) div 4"
  define k where "k = (n - 1) mod 4"
  have k: "0 \<le> k" "k < 4" by (simp_all add: k_def)
  have n: "n = 4 * q + k + 1" by (simp add: q_def k_def)
  have k': "0 \<le> 3 - k" "3 - k < 4" using k by simp_all
  have "checkers_to_grid n 1 = checkers_to_grid \<bar>n - 33\<bar> 2"
    by (simp add: checkers_to_grid_def)
  also have "\<bar>n - 33\<bar> = 4 * (7 - q) + (3 - k) + 1"
    using assms n by simp
  also have "checkers_to_grid \<dots> 2 = (7 - q, 2 * (3 - k) + (if even (7 - q) then 1 else 0))"
    by (rule checkers_to_grid_canonical[OF k'])
  finally show ?thesis
    unfolding n checkers_to_grid_canonical[OF k] by simp
qed

lemma is_board_rows:
  assumes "is_board b" "r < 8"
  shows "length (b ! r) = 8"
  using assms by (simp add: is_board_def list_all_length)

lemma board_set_cell:
  assumes "is_board b" "(r, c) \<in> set squares"
  shows "\<exists>b'. board_set b r c v = Inr b' \<and> is_board b'
            \<and> (\<forall>sq \<in> set squares. cell b' sq = (if sq = (r, c) then v else cell b sq))"
proof -
  from assms(2) have rc: "0 \<le> r" "r < 8" "0 \<le> c" "c < 8" by (auto simp: set_squares)
  from assms(1) have len: "length b = 8" by (simp add: is_board_def)
  have row: "length (b ! nat r) = 8" using is_board_rows[OF assms(1), of "nat r"] rc by simp
  let ?b' = "b[nat r := (b ! nat r)[nat c := v]]"
  have run: "board_set b r c v = Inr ?b'"
    using rc len row by (simp add: board_set_def py_getitem_def py_setitem_def)
  have wf: "is_board ?b'"
    using assms(1) rc row by (auto simp: is_board_def list_all_length nth_list_update)
  have cells: "\<forall>sq \<in> set squares. cell ?b' sq = (if sq = (r, c) then v else cell b sq)"
  proof
    fix sq assume "sq \<in> set squares"
    then obtain r' c' where sq: "sq = (r', c')" "0 \<le> r'" "r' < 8" "0 \<le> c'" "c' < 8"
      by (auto simp: set_squares)
    then show "cell ?b' sq = (if sq = (r, c) then v else cell b sq)"
      using rc len row by (auto simp: cell_def nth_list_update)
  qed
  show ?thesis using run wf cells by blast
qed

lemma mark_pieces_cells:
  assumes "\<forall>pc \<in> set pcs. pc_other_player pc = player \<and> \<not> pc_captured pc
            \<longrightarrow> 1 \<le> pc_position pc \<and> pc_position pc \<le> 32"
    and "is_board b"
  shows "\<exists>b'. mark_pieces pcs player b = Inr b' \<and> is_board b'
           \<and> (\<forall>sq \<in> set squares.
                 cell b' sq = (cell b sq \<or> sq \<in> (\<lambda>pc. checkers_to_grid (pc_position pc) player)
                       ` {pc \<in> set pcs. pc_other_player pc = player \<and> \<not> pc_captured pc}))"
  using assms
proof (induction pcs arbitrary: b)
  case Nil
  then show ?case by simp
next
  case (Cons pc pcs)
  then have rest: "\<forall>pc \<in> set pcs. pc_other_player pc = player \<and> \<not> pc_captured pc
            \<longrightarrow> 1 \<le> pc_position pc \<and> pc_position pc \<le> 32"
    by simp
  show ?case
  proof (cases "pc_other_player pc = player \<and> \<not> pc_captured pc")
    case False
    then show ?thesis
      using Cons.IH[OF rest Cons.prems(2)] by auto
  next
    case True
    obtain row col where rc: "checkers_to_grid (pc_position pc) player = (row, col)"
      by (cases "checkers_to_grid (pc_position pc) player")
    from True Cons.prems(1) have "checkers_to_grid (pc_position pc) player \<in> set squares"
      by (intro checkers_to_grid_in_range) auto
    then have "(row, col) \<in> set squares" using rc by simp
    from board_set_cell[OF Cons.prems(2) this, of True]
    obtain b1 where b1: "board_set b row col True = Inr b1" "is_board b1"
      "\<forall>sq \<in> set squares. cell b1 sq = (if sq = (row, col) then True else cell b sq)"
      by blast
    from Cons.IH[OF rest b1(2)]
    obtain b2 where b2: "mark_pieces pcs player b1 = Inr b2" "is_board b2"
      "\<forall>sq \<in> set squares.
          cell b2 sq = (cell b1 sq \<or> sq \<in> (\<lambda>pc. checkers_to_grid (pc_position pc) player)
                       ` {pc \<in> set pcs. pc_other_player pc = player \<and> \<not> pc_captured pc})"
      by blast
    have run: "mark_pieces (pc # pcs) player b = Inr b2"
      using True by (simp add: rc b1(1) b2(1))
    have "{pc' \<in> set (pc # pcs). pc_other_player pc' = player \<and> \<not> pc_captured pc'}
            = insert pc {pc' \<in> set pcs. pc_other_player pc' = player \<and> \<not> pc_captured pc'}"
      using True by auto
    then have img: "(\<lambda>pc. checkers_to_grid (pc_position pc) player)
               ` {pc' \<in> set (pc # pcs). pc_other_player pc' = player \<and> \<not> pc_captured pc'}
            = insert (row, col) ((\<lambda>pc. checkers_to_grid (pc_position pc) player)
               ` {pc' \<in> set pcs. pc_other_player pc' = player \<and> \<not> pc_captured pc'})"
      by (simp add: rc)
    have "\<forall>sq \<in> set squares.
            cell b2 sq = (cell b sq \<or> sq \<in> (\<lambda>pc. checkers_to_grid (pc_position pc) player)
               ` {pc' \<in> set (pc # pcs). pc_other_player pc' = player \<and> \<not> pc_captured pc'})"
      unfolding img using b1(3) b2(3) by auto
    then show ?thesis using run b2(2) by blast
  qed
qed

lemma is_board_empty: "is_board (replicate 8 (replicate 8 False))"
  by (simp add: is_board_def list_all_iff)

lemma cell_empty: "sq \<in> set squares \<Longrightarrow> \<not> cell (replicate 8 (replicate 8 False)) sq"
  by (auto simp: set_squares cell_def)

lemma add_opponent_pieces_cells:
  assumes "\<forall>pc \<in> set (game_pieces eng g). pc_other_player pc = player \<and> \<not> pc_captured pc
            \<longrightarrow> 1 \<le> pc_position pc \<and> pc_position pc \<le> 32"
  shows "\<exists>b. add_opponent_pieces eng g player = Inr b \<and> is_board b
           \<and> (\<forall>sq \<in> set squares.
                 cell b sq = (sq \<in> (\<lambda>pc. checkers_to_grid (pc_position pc) player)
                   ` {pc \<in> set (game_pieces eng g). pc_other_player pc = player \<and> \<not> pc_captured pc}))"
  using mark_pieces_cells[OF assms is_board_empty] cell_empty
  unfolding add_opponent_pieces_def by fastforce

lemma rotate180_board:
  assumes "is_board b"
  shows "is_board (rotate180 b)"
  using assms by (auto simp: is_board_def rotate180_def list_all_iff)

lemma rotate180_cell:
  assumes "is_board b" "(r, c) \<in> set squares"
  shows "cell (rotate180 b) (r, c) = cell b (7 - r, 7 - c)"
proof -
  from assms(2) have rc: "0 \<le> r" "r < 8" "0 \<le> c" "c < 8" by (auto simp: set_squares)
  from assms(1) have len: "length b = 8" by (simp add: is_board_def)
  have n: "nat (7 - r) = 7 - nat r" "nat (7 - c) = 7 - nat c" using rc by auto
  have row: "length (b ! (7 - nat r)) = 8" using is_board_rows[OF assms(1), of "7 - nat r"] by simp
  show ?thesis
    using rc len row by (simp add: rotate180_def cell_def rev_nth n)
qed


lemma checkers_to_grid_opponent:
  assumes "player = 1 \<or> player = 2" "1 \<le> n" "n \<le> 32"
  shows "checkers_to_grid n (opponent_of player)
           = (7 - fst (checkers_to_grid n player), 7 - snd (checkers_to_grid n player))"
  using assms(1) checkers_to_grid_rotated[OF assms(2,3)]
  by (auto simp: opponent_of_def)

lemma rotated_square: "(r, c) \<in> set squares \<Longrightarrow> (7 - r, 7 - c) \<in> set squares"
  by (auto simp: set_squares)

lemma validate_rotated_expected:
  assumes p: "player = 1 \<or> player = 2" and ok: "pieces_ok eng g"
  shows "\<exists>b. add_opponent_pieces eng g (opponent_of player) = Inr b
             \<and> validate_player_board eng g (rotate180 b) player = Inr []"
proof -
  let ?q = "opponent_of player"
  let ?grid = "\<lambda>pc. checkers_to_grid (pc_position pc) player"
  have each: "\<forall>pc \<in> set (game_pieces eng g).
                 (pc_captured pc \<or> (1 \<le> pc_position pc \<and> pc_position pc \<le> 32))
                 \<and> (pc_other_player pc = ?q \<longleftrightarrow> pc_player pc = player)"
    using ok p by (auto simp: pieces_ok_def list_all_iff opponent_of_def)
  then have range_q: "\<forall>pc \<in> set (game_pieces eng g). pc_other_player pc = ?q \<and> \<not> pc_captured pc
            \<longrightarrow> 1 \<le> pc_position pc \<and> pc_position pc \<le> 32"
    by blast
  have same: "{pc \<in> set (game_pieces eng g). pc_other_player pc = ?q \<and> \<not> pc_captured pc}
                = set (live_pieces eng g player)"
    using each by (auto simp: live_pieces_def)
  have live: "list_all (\<lambda>pc. 1 \<le> pc_position pc \<and> pc_position pc \<le> 32) (live_pieces eng g player)"
    using each by (auto simp: live_pieces_def list_all_iff)
  from add_opponent_pieces_cells[OF range_q]
  obtain b where b: "add_opponent_pieces eng g ?q = Inr b" "is_board b"
    "\<forall>sq \<in> set squares. cell b sq =
         (sq \<in> (\<lambda>pc. checkers_to_grid (pc_position pc) ?q) ` set (live_pieces eng g player))"
    unfolding same by blast
  have turned: "\<forall>pc \<in> set (live_pieces eng g player).
                  checkers_to_grid (pc_position pc) ?q = (7 - fst (?grid pc), 7 - snd (?grid pc))"
    using live p by (auto simp: list_all_iff intro!: checkers_to_grid_opponent)
  have cells: "cell (rotate180 b) sq = (sq \<in> expected_squares eng g player)"
    if sq: "sq \<in> set squares" for sq
  proof -
    obtain r c where rc: "sq = (r, c)" by (cases sq)
    have "cell (rotate180 b) sq = cell b (7 - r, 7 - c)"
      using rotate180_cell[OF b(2)] sq rc by simp
    also have "\<dots> = ((7 - r, 7 - c) \<in> (\<lambda>pc. checkers_to_grid (pc_position pc) ?q)
                         ` set (live_pieces eng g player))"
      using b(3) rotated_square sq rc by simp
    also have "\<dots> = (\<exists>pc \<in> set (live_pieces eng g player).
                         (7 - r, 7 - c) = (7 - fst (?grid pc), 7 - snd (?grid pc)))"
      using turned by (auto simp: image_iff)
    also have "\<dots> = (\<exists>pc \<in> set (live_pieces eng g player). (r, c) = ?grid pc)"
      by (auto simp: prod_eq_iff)
    also have "\<dots> = (sq \<in> expected_squares eng g player)"
      by (auto simp: expected_squares_def rc)
    finally show ?thesis .
  qed
  have sub: "expected_squares eng g player \<subseteq> set squares"
    by (rule expected_in_range[OF live])
  have "cell (rotate180 b) (?grid pc)" if "pc \<in> set (live_pieces eng g player)" for pc
  proof -
    from that have "?grid pc \<in> expected_squares eng g player"
      by (simp add: expected_squares_def)
    then show ?thesis using cells[of "?grid pc"] sub by blast
  qed
  then have missing:
    "filter (\<lambda>sq. \<not> cell (rotate180 b) sq) (map ?grid (live_pieces eng g player)) = []"
    by (auto simp: filter_empty_conv)
  have extra: "filter (\<lambda>sq. sq \<notin> expected_squares eng g player \<and> cell (rotate180 b) sq) squares = []"
    using cells by (auto simp: filter_empty_conv)
  have "validate_player_board eng g (rotate180 b) player = Inr []"
    using validate_player_board_exact[OF rotate180_board[OF b(2)] live] missing extra by simp
  with b(1) show ?thesis by blast
qed

text \<open>
  Claim C2, as stated, fails. After the opening move \<open>[9, 13]\<close> of player 1, the board
  \<open>add_opponent_pieces\<close> builds for the opponent of player 2 shows the pieces of player
  2 in player 1's frame (rows 0 to 2); validated for player 2, whose own frame has them
  in rows 5 to 7, all 24 squares are reported.
\<close>

theorem expected_board_counterexample:
  "fst (make_move ref_engine ref_new [9, 13])
   \<and> add_opponent_pieces ref_engine (snd (make_move ref_engine ref_new [9, 13])) (opponent_of 2)
       = Inr (board_with [(0, 1), (0, 3), (0, 5), (0, 7), (1, 0), (1, 2), (1, 4), (1, 6),
                          (2, 1), (2, 3), (2, 5), (2, 7)])
   \<and> validate_player_board ref_engine (snd (make_move ref_engine ref_new [9, 13]))
         (board_with [(0, 1), (0, 3), (0, 5), (0, 7), (1, 0), (1, 2), (1, 4), (1, 6),
                      (2, 1), (2, 3), (2, 5), (2, 7)]) 2
       = Inr [(5, 0), (5, 2), (5, 4), (5, 6), (6, 1), (6, 3), (6, 5), (6, 7),
              (7, 0), (7, 2), (7, 4), (7, 6), (0, 1), (0, 3), (0, 5), (0, 7),
              (1, 0), (1, 2), (1, 4), (1, 6), (2, 1), (2, 3), (2, 5), (2, 7)]"
  by code_simp

text \<open>
  Claim C2, amended. The two frames differ by a half turn of the board. For a player in
  \<open>{1, 2}\<close> and an engine state whose pieces are well-formed, the board that
  \<open>add_opponent_pieces\<close> builds for the opponent, turned by 180 degrees, validates for
  the player with no mismatch.
\<close>

theorem expected_board_validates_rotated:
  assumes "player = 1 \<or> player = 2" and "pieces_ok eng g"
  shows "case add_opponent_pieces eng g (opponent_of player) of
           Inl err \<Rightarrow> False
         | Inr b \<Rightarrow> validate_player_board eng g (rotate180 b) player = Inr []"
  using validate_rotated_expected[OF assms] by auto

theorem expected_board_validates_rotated_witness:
  "((2::int) = 1 \<or> (2::int) = 2)
   \<and> pieces_ok ref_engine (snd (make_move ref_engine ref_new [9, 13]))
   \<and> add_opponent_pieces ref_engine (snd (make_move ref_engine ref_new [9, 13])) (opponent_of 2)
        = Inr (board_with [(0, 1), (0, 3), (0, 5), (0, 7), (1, 0), (1, 2), (1, 4), (1, 6),
                           (2, 1), (2, 3), (2, 5), (2, 7)])
   \<and> validate_player_board ref_engine (snd (make_move ref_engine ref_new [9, 13]))
        (rotate180 (board_with [(0, 1), (0, 3), (0, 5), (0, 7), (1, 0), (1, 2), (1, 4), (1, 6),
                                (2, 1), (2, 3), (2, 5), (2, 7)])) 2 = Inr []"
proof -
  let ?g = "snd (make_move ref_engine ref_new [9, 13])"
  have ok: "pieces_ok ref_engine ?g"
    by code_simp
  have b: "add_opponent_pieces ref_engine ?g (opponent_of 2)
             = Inr (board_with [(0, 1), (0, 3), (0, 5), (0, 7), (1, 0), (1, 2), (1, 4), (1, 6),
                                (2, 1), (2, 3), (2, 5), (2, 7)])"
    by code_simp
  have p: "(2::int) = 1 \<or> (2::int) = 2" by simp
  from expected_board_validates_rotated[OF p ok]
  show ?thesis
    unfolding b using ok by simp
qed


section \<open>Session registry\<close>

lemma get_instance_present:
  "instances w k = Some r \<Longrightarrow> get_instance eng k w = (r, w)"
  by (simp add: get_instance_def)

lemma get_instance_absent:
  "instances w k = None \<Longrightarrow>
     get_instance eng k w =
       (length (objects w),
        w\<lparr>instances := (instances w)(k \<mapsto> length (objects w)),
          objects := objects w @ [init_wrapper eng]\<rparr>)"
  by (simp add: get_instance_def Let_def)

lemma get_instance_registers:
  "instances (snd (get_instance eng k w)) k = Some (fst (get_instance eng k w))"
  by (cases "instances w k") (simp_all add: get_instance_present get_instance_absent)

lemma disconnect_last:
  assumes "instance_count (objects w ! game_ref self) \<le> 1"
  shows "instances (disconnect self w) (room_group_name self) = None"
    and "length (objects (disconnect self w)) = length (objects w)"
  using assms by (auto simp: disconnect_def Let_def remove_instance_def)

text \<open>
  Claim C7. \<open>get_instance\<close> registers the session it returns; as long as the registry
  holds that session under the key, every further \<open>get_instance\<close> with the key returns
  the same reference and changes nothing, in particular when called twice in a row. When
  a \<open>disconnect\<close> brings the party count of the consumer's session to zero or below, the
  key is removed from the registry, and the next \<open>get_instance\<close> with that key
  allocates a new object, distinct from all existing ones, with a fresh game and count
  zero, and registers it.
\<close>

theorem session_lifecycle:
  "instances (snd (get_instance eng k w)) k = Some (fst (get_instance eng k w))
   \<and> get_instance eng k (snd (get_instance eng k w)) = get_instance eng k w
   \<and> (instances w2 k = Some (fst (get_instance eng k w))
        \<longrightarrow> get_instance eng k w2 = (fst (get_instance eng k w), w2))
   \<and> (game_ref self < length (objects w)
          \<and> instance_count (objects w ! game_ref self) - 1 \<le> 0
        \<longrightarrow> instances (disconnect self w) (room_group_name self) = None
            \<and> (case get_instance eng (room_group_name self) (disconnect self w) of
                  (r, w') \<Rightarrow>
                    r = length (objects w)
                    \<and> objects w' = objects (disconnect self w)
                                     @ [\<lparr>game = game_new eng, instance_count = 0\<rparr>]
                    \<and> instances w' = (instances (disconnect self w))(room_group_name self \<mapsto> r)))"
proof (intro conjI impI)
  show reg: "instances (snd (get_instance eng k w)) k = Some (fst (get_instance eng k w))"
    by (rule get_instance_registers)
  show "get_instance eng k (snd (get_instance eng k w)) = get_instance eng k w"
    using get_instance_present[OF reg] by simp
  show "get_instance eng k w2 = (fst (get_instance eng k w), w2)"
    if "instances w2 k = Some (fst (get_instance eng k w))"
    using that by (rule get_instance_present)
next
  assume last: "game_ref self < length (objects w)
                  \<and> instance_count (objects w ! game_ref self) - 1 \<le> 0"
  then have c: "instance_count (objects w ! game_ref self) \<le> 1" by simp
  show gone: "instances (disconnect self w) (room_group_name self) = None"
    by (rule disconnect_last(1)[OF c])
  show "case get_instance eng (room_group_name self) (disconnect self w) of
          (r, w') \<Rightarrow>
            r = length (objects w)
            \<and> objects w' = objects (disconnect self w)
                             @ [\<lparr>game = game_new eng, instance_count = 0\<rparr>]
            \<and> instances w' = (instances (disconnect self w))(room_group_name self \<mapsto> r)"
    by (simp add: get_instance_absent[OF gone] disconnect_last(2)[OF c] init_wrapper_def)
qed

theorem session_lifecycle_witness:
  "connect ref_engine ''r'' no_sessions
     = (\<lparr>room_group_name = ''chat_r'', game_ref = 0, player_num = 1\<rparr>,
        \<lparr>instances = [''chat_r'' \<mapsto> 0], objects = [\<lparr>game = ref_new, instance_count = 1\<rparr>]\<rparr>)
   \<and> get_instance ref_engine ''chat_r''
         \<lparr>instances = [''chat_r'' \<mapsto> 0], objects = [\<lparr>game = ref_new, instance_count = 1\<rparr>]\<rparr>
       = (0, \<lparr>instances = [''chat_r'' \<mapsto> 0],
              objects = [\<lparr>game = ref_new, instance_count = 1\<rparr>]\<rparr>)
   \<and> instances (disconnect \<lparr>room_group_name = ''chat_r'', game_ref = 0, player_num = 1\<rparr>
         \<lparr>instances = [''chat_r'' \<mapsto> 0], objects = [\<lparr>game = ref_new, instance_count = 1\<rparr>]\<rparr>)
         ''chat_r'' = None
   \<and> (case get_instance ref_engine ''chat_r''
              (disconnect \<lparr>room_group_name = ''chat_r'', game_ref = 0, player_num = 1\<rparr>
                 \<lparr>instances = [''chat_r'' \<mapsto> 0],
                  objects = [\<lparr>game = ref_new, instance_count = 1\<rparr>]\<rparr>) of
         (r, w') \<Rightarrow> r = 1 \<and> objects w' = [\<lparr>game = ref_new, instance_count = 0\<rparr>,
                                          \<lparr>game = ref_new, instance_count = 0\<rparr>]
                     \<and> instances w' ''chat_r'' = Some 1)"
proof -
  let ?a = "\<lparr>room_group_name = ''chat_r'', game_ref = 0, player_num = 1\<rparr>"
  let ?w = "\<lparr>instances = [''chat_r'' \<mapsto> (0::nat)],
             objects = [\<lparr>game = ref_new, instance_count = 1\<rparr>]\<rparr>"
  have joined: "connect ref_engine ''r'' no_sessions = (?a, ?w)"
    by (simp add: connect_def no_sessions_def get_instance_def init_wrapper_def ref_engine_def
          Let_def)
  have held: "instances ?w ''chat_r'' = Some (fst (get_instance ref_engine ''chat_r'' ?w))"
    by (simp add: get_instance_def)
  have last: "game_ref ?a < length (objects ?w)
                \<and> instance_count (objects ?w ! game_ref ?a) - 1 \<le> 0"
    by simp
  have left: "objects (disconnect ?a ?w) = [\<lparr>game = ref_new, instance_count = 0\<rparr>]"
    by (simp add: disconnect_def remove_instance_def)
  have again: "get_instance ref_engine ''chat_r'' ?w = (0, ?w)"
    by (simp add: get_instance_def)
  have fresh: "get_instance ref_engine ''chat_r'' (disconnect ?a ?w)
                 = (1, \<lparr>instances = [''chat_r'' \<mapsto> 1],
                        objects = [\<lparr>game = ref_new, instance_count = 0\<rparr>,
                                   \<lparr>game = ref_new, instance_count = 0\<rparr>]\<rparr>)"
    by (simp add: disconnect_def remove_instance_def get_instance_def init_wrapper_def
          ref_engine_def Let_def)
  from session_lifecycle[of ref_engine "''chat_r''" ?w ?w ?a] held last
  show ?thesis
    using joined by (simp add: again fresh left)
qed


section \<open>Player slots\<close>

text \<open>
  \<open>connect\<close> on a room whose session is registered, and on a room without a session.
\<close>

lemma connect_registered:
  assumes "instances w (''chat_'' @ room_name) = Some r" "r < length (objects w)"
  shows "connect eng room_name w =
           (\<lparr>room_group_name = ''chat_'' @ room_name, game_ref = r,
             player_num = slot_for (instance_count (objects w ! r) + 1)\<rparr>,
            w\<lparr>objects := (objects w)[r := (objects w ! r)
                             \<lparr>instance_count := instance_count (objects w ! r) + 1\<rparr>]\<rparr>)"
  using assms by (simp add: connect_def get_instance_def Let_def slot_for_def)

lemma connect_unregistered:
  assumes "instances w (''chat_'' @ room_name) = None"
  shows "connect eng room_name w =
           (\<lparr>room_group_name = ''chat_'' @ room_name, game_ref = length (objects w),
             player_num = 1\<rparr>,
            w\<lparr>instances := (instances w)(''chat_'' @ room_name \<mapsto> length (objects w)),
              objects := objects w @ [\<lparr>game = game_new eng, instance_count = 1\<rparr>]\<rparr>)"
  using assms by (simp add: connect_def get_instance_def Let_def init_wrapper_def)

lemma join_all_step:
  "fst (join_all eng room_name (Suc n) w)
     = fst (connect eng room_name w)
       # fst (join_all eng room_name n (snd (connect eng room_name w)))"
  by (simp split: prod.splits)

lemma join_all_registered:
  assumes "instances w (''chat_'' @ room_name) = Some r" "r < length (objects w)"
  shows "map player_num (fst (join_all eng room_name n w))
           = map (\<lambda>i. slot_for (instance_count (objects w ! r) + 1 + int i)) [0..<n]"
  using assms
proof (induction n arbitrary: w)
  case 0
  then show ?case by simp
next
  case (Suc n)
  let ?w' = "w\<lparr>objects := (objects w)[r := (objects w ! r)
                             \<lparr>instance_count := instance_count (objects w ! r) + 1\<rparr>]\<rparr>"
  have reg: "instances ?w' (''chat_'' @ room_name) = Some r" "r < length (objects ?w')"
    using Suc.prems by simp_all
  have count: "instance_count (objects ?w' ! r) = instance_count (objects w ! r) + 1"
    using Suc.prems by simp
  have shift: "map (\<lambda>i. slot_for (instance_count (objects w ! r) + 1 + int i)) [0..<Suc n]
          = slot_for (instance_count (objects w ! r) + 1)
            # map (\<lambda>i. slot_for (instance_count (objects w ! r) + 1 + 1 + int i)) [0..<n]"
    by (simp add: upt_conv_Cons map_Suc_upt[symmetric] add.assoc del: upt_Suc)
  show ?case
    unfolding shift
    using Suc.IH[OF reg] count
    by (simp add: join_all_step connect_registered[OF Suc.prems] add.commute add.left_commute
          del: join_all.simps)
qed


lemma later_slots:
  "map (\<lambda>i. slot_for (2 + int i)) [0..<n] = take n [2] @ replicate (n - 1) (- 1)"
proof (rule nth_equalityI)
  show "length (map (\<lambda>i. slot_for (2 + int i)) [0..<n])
          = length (take n [2::int] @ replicate (n - 1) (- 1))"
    by (cases n) simp_all
next
  fix i assume "i < length (map (\<lambda>i. slot_for (2 + int i)) [0..<n])"
  then have i: "i < n" by simp
  then obtain m where n: "n = Suc m" by (cases n) auto
  have lhs: "map (\<lambda>i. slot_for (2 + int i)) [0..<n] ! i = slot_for (2 + int i)"
    using i by (simp del: upt_Suc)
  show "map (\<lambda>i. slot_for (2 + int i)) [0..<n] ! i
          = (take n [2] @ replicate (n - 1) (- 1)) ! i"
    unfolding lhs using i n by (cases i) (simp_all add: slot_for_def)
qed

lemma join_all_unregistered:
  assumes "instances w (''chat_'' @ room_name) = None"
  shows "map player_num (fst (join_all eng room_name n w))
           = take n [1, 2] @ replicate (n - 2) (- 1)"
proof (cases n)
  case 0
  then show ?thesis by simp
next
  case (Suc m)
  let ?w' = "w\<lparr>instances := (instances w)(''chat_'' @ room_name \<mapsto> length (objects w)),
              objects := objects w @ [\<lparr>game = game_new eng, instance_count = 1\<rparr>]\<rparr>"
  have reg: "instances ?w' (''chat_'' @ room_name) = Some (length (objects w))"
    "length (objects w) < length (objects ?w')"
    by simp_all
  have "map player_num (fst (join_all eng room_name (Suc m) w))
          = 1 # map (\<lambda>i. slot_for (2 + int i)) [0..<m]"
    using join_all_registered[OF reg, of eng m]
    by (simp add: join_all_step connect_unregistered[OF assms] del: join_all.simps)
  also have "\<dots> = take (Suc m) [1, 2] @ replicate (Suc m - 2) (- 1)"
    unfolding later_slots by (cases m) simp_all
  finally show ?thesis using Suc by simp
qed

text \<open>
  Claim C8, as stated, fails. Two parties join a room and get the slots 1 and 2; the
  second leaves, which keeps the session registered with count 1; the third party to
  join then gets slot 2, not the sentinel.
\<close>

theorem third_joiner_counterexample:
  "map player_num (fst (join_all ref_engine ''r'' 2 no_sessions)) = [1, 2]
   \<and> instances (disconnect (fst (join_all ref_engine ''r'' 2 no_sessions) ! 1)
                  (snd (join_all ref_engine ''r'' 2 no_sessions))) ''chat_r'' = Some 0
   \<and> player_num (fst (connect ref_engine ''r''
                        (disconnect (fst (join_all ref_engine ''r'' 2 no_sessions) ! 1)
                           (snd (join_all ref_engine ''r'' 2 no_sessions))))) = 2"
  by code_simp

text \<open>
  Claim C8, amended. The slot depends on the party count of the session at the time of
  the join: a party joining a registered session whose count is \<open>c\<close> gets \<open>c + 1\<close> if
  that is 1 or 2, and the sentinel \<open>-1\<close> otherwise. In particular, when \<open>n\<close> parties join
  a room that has no session and nobody leaves in between, the first gets slot 1, the
  second slot 2, and every later one the sentinel.
\<close>

theorem slots_by_party_count:
  "(instances w (''chat_'' @ room_name) = None
      \<longrightarrow> map player_num (fst (join_all eng room_name n w))
            = take n [1, 2] @ replicate (n - 2) (- 1))
   \<and> (instances w (''chat_'' @ room_name) = Some r \<and> r < length (objects w)
      \<longrightarrow> player_num (fst (connect eng room_name w))
            = (if instance_count (objects w ! r) + 1 = 1 \<or> instance_count (objects w ! r) + 1 = 2
               then instance_count (objects w ! r) + 1 else - 1))"
  using join_all_unregistered[of w room_name eng n] connect_registered[of w room_name r eng]
  by (simp add: slot_for_def)

theorem slots_by_party_count_witness:
  "instances (no_sessions :: ref_game world) (''chat_'' @ ''r'') = None
   \<and> map player_num (fst (join_all ref_engine ''r'' 4 no_sessions)) = [1, 2, - 1, - 1]
   \<and> instances (snd (join_all ref_engine ''r'' 4 no_sessions)) (''chat_'' @ ''r'') = Some 0
   \<and> 0 < length (objects (snd (join_all ref_engine ''r'' 4 no_sessions)))
   \<and> instance_count (objects (snd (join_all ref_engine ''r'' 4 no_sessions)) ! 0) = 4
   \<and> player_num (fst (connect ref_engine ''r'' (snd (join_all ref_engine ''r'' 4 no_sessions))))
        = - 1"
proof -
  let ?w = "snd (join_all ref_engine ''r'' 4 no_sessions)"
  have w: "?w = \<lparr>instances = [''chat_r'' \<mapsto> 0],
                 objects = [\<lparr>game = ref_new, instance_count = 4\<rparr>]\<rparr>"
    by (simp add: numeral_nat connect_def get_instance_def no_sessions_def init_wrapper_def
          ref_engine_def Let_def)
  have none: "instances (no_sessions :: ref_game world) (''chat_'' @ ''r'') = None"
    by (simp add: no_sessions_def)
  have some: "instances ?w (''chat_'' @ ''r'') = Some 0 \<and> 0 < length (objects ?w)"
    unfolding w by simp
  from slots_by_party_count[where w = no_sessions and room_name = "''r''" and eng = ref_engine
         and n = 4] none
       slots_by_party_count[where w = ?w and room_name = "''r''" and eng = ref_engine
         and r = 0] some
  show ?thesis
    unfolding w by (simp add: numeral_nat)
qed


section \<open>Commands of a party\<close>

lemma grid_to_checkers_unmirrored:
  "player \<noteq> 1 \<Longrightarrow> grid_to_checkers row col player = grid_to_checkers row col 2"
  by (simp add: grid_to_checkers_def)

lemma make_move_from_board_unmirrored:
  "player \<noteq> 1 \<Longrightarrow>
     make_move_from_board eng g pb cb player errs = make_move_from_board eng g pb cb 2 errs"
  by (simp add: make_move_from_board_def grid_to_checkers_unmirrored[of player]
        split: sum.splits option.splits prod.splits)

lemma receive_query:
  assumes "is_query cmd" "receive eng self cmd w = Inr (res, w')"
  shows "w' = w"
  using assms by (cases cmd) (auto split: sum.splits)

text \<open>
  Claim C9, as stated, fails. Three parties join a room; the third holds the sentinel
  \<open>-1\<close>. Its command \<open>make_move_from_board\<close> with a piece gone from (2, 1) and a piece
  new on (3, 0) is mapped without mirroring to the move \<open>[9, 13]\<close>, which the engine
  accepts in the opening position: the answer is \<open>True\<close> with no error square, and the
  turn passes from player 1 to player 2.
\<close>

theorem unassigned_party_counterexample:
  "player_num (fst (join_all ref_engine ''r'' 3 no_sessions) ! 2) = - 1
   \<and> game_ref (fst (join_all ref_engine ''r'' 3 no_sessions) ! 2) = 0
   \<and> game_whose_turn ref_engine
        (game (objects (snd (join_all ref_engine ''r'' 3 no_sessions)) ! 0)) = 1
   \<and> map_sum id fst
        (receive ref_engine (fst (join_all ref_engine ''r'' 3 no_sessions) ! 2)
           (Make_move_from_board (board_with [(2, 1)]) (board_with [(3, 0)]))
           (snd (join_all ref_engine ''r'' 3 no_sessions)))
       = Inr [Truth True, Squares []]
   \<and> map_sum id (game_whose_turn ref_engine \<circ> game \<circ> hd \<circ> objects \<circ> snd)
        (receive ref_engine (fst (join_all ref_engine ''r'' 3 no_sessions) ! 2)
           (Make_move_from_board (board_with [(2, 1)]) (board_with [(3, 0)]))
           (snd (join_all ref_engine ''r'' 3 no_sessions)))
       = Inr 2"
  by code_simp

text \<open>
  Claim C9, amended. The wrapper has no check of the caller's slot. A call of
  \<open>make_move_from_board\<close> with the sentinel \<open>-1\<close> is treated exactly as one with player
  2: the squares are mapped without mirroring, and the move is applied whenever the
  engine accepts it. Only the commands that call no moving operation of the engine
  (\<open>add_opponent_pieces\<close>, \<open>validate_player_board\<close>, \<open>whose_turn\<close>, \<open>is_over\<close>,
  \<open>player_num\<close>, \<open>moves\<close>, \<open>echo\<close>) leave the world as it was, for every party.
\<close>

theorem unassigned_party_moves_as_player_2:
  "make_move_from_board eng g prev_board curr_board (- 1) error_location
     = make_move_from_board eng g prev_board curr_board 2 error_location
   \<and> (boards_same prev_board curr_board = Inr (Some s, Some e)
        \<and> game_move eng g [grid_to_checkers (fst s) (snd s) 2,
                             grid_to_checkers (fst e) (snd e) 2] = Returned g'
      \<longrightarrow> make_move_from_board eng g prev_board curr_board (- 1) error_location
            = Inr (True, error_location, g'))
   \<and> (is_query cmd \<and> receive eng self cmd w = Inr (res, w') \<longrightarrow> w' = w)"
proof (intro conjI impI)
  show same: "make_move_from_board eng g prev_board curr_board (- 1) error_location
                = make_move_from_board eng g prev_board curr_board 2 error_location"
    by (rule make_move_from_board_unmirrored) simp
  show "make_move_from_board eng g prev_board curr_board (- 1) error_location
          = Inr (True, error_location, g')"
    if "boards_same prev_board curr_board = Inr (Some s, Some e)
        \<and> game_move eng g [grid_to_checkers (fst s) (snd s) 2,
                             grid_to_checkers (fst e) (snd e) 2] = Returned g'"
    unfolding same using that by (simp add: make_move_from_board_found make_move_def)
  show "w' = w" if "is_query cmd \<and> receive eng self cmd w = Inr (res, w')"
    using that receive_query by blast
qed

theorem unassigned_party_moves_as_player_2_witness:
  "boards_same (board_with [(2, 1)]) (board_with [(3, 0)]) = Inr (Some (2, 1), Some (3, 0))
   \<and> game_move ref_engine ref_new [grid_to_checkers 2 1 2, grid_to_checkers 3 0 2]
        = Returned (snd (make_move ref_engine ref_new [9, 13]))
   \<and> make_move_from_board ref_engine ref_new (board_with [(2, 1)]) (board_with [(3, 0)]) (- 1) []
        = Inr (True, [], snd (make_move ref_engine ref_new [9, 13]))
   \<and> is_query Whose_turn
   \<and> receive ref_engine \<lparr>room_group_name = ''chat_r'', game_ref = 0, player_num = - 1\<rparr>
        Whose_turn
        \<lparr>instances = [''chat_r'' \<mapsto> 0], objects = [\<lparr>game = ref_new, instance_count = 3\<rparr>]\<rparr>
       = Inr ([Number 1],
              \<lparr>instances = [''chat_r'' \<mapsto> 0],
                objects = [\<lparr>game = ref_new, instance_count = 3\<rparr>]\<rparr>)"
proof -
  let ?self = "\<lparr>room_group_name = ''chat_r'', game_ref = 0, player_num = - 1\<rparr>"
  let ?w = "\<lparr>instances = [''chat_r'' \<mapsto> (0::nat)],
             objects = [\<lparr>game = ref_new, instance_count = 3\<rparr>]\<rparr>"
  have scan: "boards_same (board_with [(2, 1)]) (board_with [(3, 0)])
                = Inr (Some (2, 1), Some (3, 0))"
    by code_simp
  have accepted: "game_move ref_engine ref_new
                    [grid_to_checkers (fst (2, 1)) (snd (2, 1)) 2,
                     grid_to_checkers (fst (3, 0)) (snd (3, 0)) 2]
                  = Returned (snd (make_move ref_engine ref_new [9, 13]))"
    by code_simp
  have asked: "receive ref_engine ?self Whose_turn ?w = Inr ([Number 1], ?w)"
    by (simp add: whose_turn_def ref_engine_def ref_new_def)
  from unassigned_party_moves_as_player_2[of ref_engine ref_new "board_with [(2, 1)]"
         "board_with [(3, 0)]" "[]" "(2, 1)" "(3, 0)" "snd (make_move ref_engine ref_new [9, 13])"
         Whose_turn ?self ?w "[Number 1]" ?w]
       scan accepted
  have moved: "make_move_from_board ref_engine ref_new (board_with [(2, 1)])
                 (board_with [(3, 0)]) (- 1) []
               = Inr (True, [], snd (make_move ref_engine ref_new [9, 13]))"
    by blast
  show ?thesis
    using moved scan accepted asked by simp
qed

section \<open>Frame of the reconciliation commands\<close>

text \<open>
  Claim C10. \<open>add_opponent_pieces\<close> and \<open>validate_player_board\<close> assign to nothing but
  their local variables: in the model they return a value and no engine state, and the
  branches of \<open>receive\<close> that call them hand back the world they were given, whatever
  the board and the player are. So the session object, and with it the piece list, the
  positions, the captured flags and the turn owner, are the same after the call as
  before. (When the call raises \<open>IndexError\<close> nothing has been assigned either.)
\<close>

theorem reconciliation_is_read_only:
  "(receive eng self Add_opponent_pieces w = Inr (res, w')
      \<longrightarrow> w' = w
          \<and> game_pieces eng (game (objects w' ! game_ref self))
              = game_pieces eng (game (objects w ! game_ref self))
          \<and> whose_turn eng (game (objects w' ! game_ref self))
              = whose_turn eng (game (objects w ! game_ref self)))
   \<and> (receive eng self (Validate_player_board board) w = Inr (res, w')
      \<longrightarrow> w' = w
          \<and> game_pieces eng (game (objects w' ! game_ref self))
              = game_pieces eng (game (objects w ! game_ref self))
          \<and> whose_turn eng (game (objects w' ! game_ref self))
              = whose_turn eng (game (objects w ! game_ref self)))"
  by (auto split: sum.splits)

theorem reconciliation_is_read_only_witness:
  "receive ref_engine \<lparr>room_group_name = ''chat_r'', game_ref = 0, player_num = 1\<rparr>
     Add_opponent_pieces
     \<lparr>instances = [''chat_r'' \<mapsto> 0], objects = [\<lparr>game = ref_new, instance_count = 1\<rparr>]\<rparr>
     = Inr ([Board (board_with [(0, 1), (0, 3), (0, 5), (0, 7), (1, 0), (1, 2), (1, 4), (1, 6),
                                (2, 1), (2, 3), (2, 5), (2, 7)])],
            \<lparr>instances = [''chat_r'' \<mapsto> 0],
              objects = [\<lparr>game = ref_new, instance_count = 1\<rparr>]\<rparr>)
   \<and> receive ref_engine \<lparr>room_group_name = ''chat_r'', game_ref = 0, player_num = 1\<rparr>
       (Validate_player_board (board_with [(0, 1)]))
       \<lparr>instances = [''chat_r'' \<mapsto> 0], objects = [\<lparr>game = ref_new, instance_count = 1\<rparr>]\<rparr>
     = Inr ([Squares [(7, 6), (7, 4), (7, 2), (7, 0), (6, 7), (6, 5), (6, 3), (6, 1),
                      (5, 6), (5, 4), (5, 2), (5, 0), (0, 1)]],
            \<lparr>instances = [''chat_r'' \<mapsto> 0],
              objects = [\<lparr>game = ref_new, instance_count = 1\<rparr>]\<rparr>)"
proof -
  let ?self = "\<lparr>room_group_name = ''chat_r'', game_ref = 0, player_num = 1\<rparr>"
  let ?w = "\<lparr>instances = [''chat_r'' \<mapsto> (0::nat)],
             objects = [\<lparr>game = ref_new, instance_count = 1\<rparr>]\<rparr>"
  have built: "add_opponent_pieces ref_engine ref_new 1
                 = Inr (board_with [(0, 1), (0, 3), (0, 5), (0, 7), (1, 0), (1, 2), (1, 4),
                                    (1, 6), (2, 1), (2, 3), (2, 5), (2, 7)])"
    by code_simp
  have checked: "validate_player_board ref_engine ref_new (board_with [(0, 1)]) 1
                   = Inr [(7, 6), (7, 4), (7, 2), (7, 0), (6, 7), (6, 5), (6, 3), (6, 1),
                          (5, 6), (5, 4), (5, 2), (5, 0), (0, 1)]"
    by code_simp
  have "\<exists>res w'. receive ref_engine ?self Add_opponent_pieces ?w = Inr (res, w')"
    by (simp add: built)
  then obtain res1 w1 where r1: "receive ref_engine ?self Add_opponent_pieces ?w = Inr (res1, w1)"
    by blast
  have "\<exists>res w'. receive ref_engine ?self (Validate_player_board (board_with [(0, 1)])) ?w
                    = Inr (res, w')"
    by (simp add: checked)
  then obtain res2 w2
    where r2: "receive ref_engine ?self (Validate_player_board (board_with [(0, 1)])) ?w
                 = Inr (res2, w2)"
    by blast
  from reconciliation_is_read_only[where eng = ref_engine and self = ?self and w = ?w
         and res = res1 and w' = w1] r1
  have "w1 = ?w" by blast
  moreover
  from reconciliation_is_read_only[where eng = ref_engine and self = ?self and w = ?w
         and board = "board_with [(0, 1)]" and res = res2 and w' = w2] r2
  have "w2 = ?w" by blast
  ultimately show ?thesis
    using r1 r2 by (simp add: built checked)
qed

end
